theory Spec2Isabelle
  imports Main "HOL-Library.Word"
begin

section \<open>The LD2412 radar driver\<close>

text \<open>
  A shallow embedding of the LD2412 serial driver. The repository holds two revisions of
  the class: the earlier one programmed against \<open>HardwareSerial\<close> and the later one
  programmed against \<open>Stream\<close>. Where the two differ the model takes the revision as
  an argument.
\<close>

type_synonym u8 = "8 word"
type_synonym u32 = "32 word"
type_synonym u64 = "64 word"

datatype revision = Rev_HardwareSerial | Rev_Stream

subsection \<open>Constants of the class\<close>

definition ACK_TIMEOUT :: nat where
  "ACK_TIMEOUT = 200"

definition BUFFER_SIZE :: nat where
  "BUFFER_SIZE = 32"

definition REFRESH_THRESHOLD :: nat where
  "REFRESH_THRESHOLD = 1000"

definition FRAME_HEADER :: "u8 list" where
  "FRAME_HEADER = [0xFD, 0xFC, 0xFB, 0xFA]"

definition FRAME_FOOTER :: "u8 list" where
  "FRAME_FOOTER = [0x04, 0x03, 0x02, 0x01]"

subsection \<open>Platform and object state\<close>

text \<open>
  Three things the C++ text leaves to the platform. \<open>ptr_size\<close> is
  \<open>sizeof(uint8_t*)\<close>. \<open>past_data n k\<close> is the byte found \<open>k\<close> places past the end
  of the caller's command array by the call of \<open>sendCommand\<close> that finds \<open>n\<close> bytes
  already written to the port: the arrays live on the callers' stacks, so every call
  may find other bytes there. \<open>footer_oob k\<close> is the byte found at \<open>FRAME_FOOTER[k]\<close>
  for an index \<open>k\<close> outside \<open>0..3\<close>. The code reads both, and the model makes no
  assumption about what is there. The types \<open>long\<close> and \<open>unsigned long\<close> have 32
  bits, \<open>unsigned long long\<close> has 64, as on the ESP32 that the header of the earlier
  revision names.
\<close>

record platform =
  ptr_size :: nat
  past_data :: "nat \<Rightarrow> nat \<Rightarrow> u8"
  footer_oob :: "int \<Rightarrow> u8"

text \<open>
  The members of the class that the modelled functions touch, together with the two
  directions of the serial port: \<open>serial_out\<close> collects every byte written,
  \<open>serial_in\<close> is the receive queue (arrived, not yet read).
\<close>

record driver =
  buffer :: "u8 list"
  serialBuffer :: "u8 list"
  serialLastRead :: u32
  refresh_threshold :: u32
  data_len :: "u8 \<times> u8"
  serial_out :: "u8 list"
  serial_in :: "u8 list"

text \<open>The object after construction; the two arrays have no initialiser in the class.\<close>

definition LD2412 :: "u8 list \<Rightarrow> u8 list \<Rightarrow> driver" where
  "LD2412 buffer0 serialBuffer0 =
     \<lparr>buffer = buffer0, serialBuffer = serialBuffer0, serialLastRead = 0,
      refresh_threshold = 5, data_len = (0, 0), serial_out = [], serial_in = []\<rparr>"

subsection \<open>sendCommand\<close>

text \<open>
  \<open>data[k]\<close> for the pointer parameter, in the call that finds \<open>n\<close> bytes already
  written: the caller's array, or what lies past it.
\<close>

definition data_at :: "platform \<Rightarrow> nat \<Rightarrow> u8 list \<Rightarrow> nat \<Rightarrow> u8" where
  "data_at pf n data k =
     (if k < length data then data ! k else past_data pf n (k - length data))"

text \<open>
  \<open>data_len[0] = sizeof(data)\<close> with \<open>data\<close> of type \<open>uint8_t*\<close>; then four writes:
  the header, the two bytes of \<open>data_len\<close>, \<open>data_len[0]\<close> bytes from \<open>data\<close>, the
  footer.
\<close>

definition sendCommand :: "platform \<Rightarrow> u8 list \<Rightarrow> driver \<Rightarrow> driver" where
  "sendCommand pf data st =
     (let dl = (of_nat (ptr_size pf), snd (data_len st)) in
      st\<lparr>data_len := dl,
         serial_out := serial_out st @ FRAME_HEADER @ [fst dl, snd dl]
           @ map (data_at pf (length (serial_out st)) data) [0..<unat (fst dl)]
           @ FRAME_FOOTER\<rparr>)"

subsection \<open>getAck\<close>

text \<open>
  The inner loop \<open>while (serial.available() && i < BUFFER_SIZE) buffer[i++] = serial.read()\<close>
  over the receive queue.
\<close>

fun drain :: "nat \<Rightarrow> u8 list \<Rightarrow> u8 list \<Rightarrow> nat \<times> u8 list \<times> u8 list" where
  "drain i buf [] = (i, buf, [])"
| "drain i buf (b # q) =
     (if i < BUFFER_SIZE then drain (Suc i) (buf[i := b]) q else (i, buf, b # q))"

text \<open>
  The outer loop \<open>while (CURRENT_TIME - time < ACK_TIMEOUT)\<close>. The argument holds one
  entry for every pass whose time test succeeded: the bytes that reached the port since
  the previous pass. The loop ends when the entries do, that is when the time is up.
\<close>

fun poll :: "u8 list list \<Rightarrow> nat \<Rightarrow> u8 list \<Rightarrow> u8 list \<Rightarrow> nat \<times> u8 list \<times> u8 list" where
  "poll [] i buf q = (i, buf, q)"
| "poll (arrived # ps) i buf q =
     (case drain i buf (q @ arrived) of (i', buf', q') \<Rightarrow> poll ps i' buf' q')"

definition footer_at :: "platform \<Rightarrow> int \<Rightarrow> u8" where
  "footer_at pf k =
     (if 0 \<le> k \<and> k < 4 then FRAME_FOOTER ! nat k else footer_oob pf k)"

text \<open>
  \<open>len-4<i<len\<close> as C++ reads it: \<open>((len-4) < i) < len\<close>, the inner comparison
  converted to 0 or 1.
\<close>

definition chained :: "int \<Rightarrow> int \<Rightarrow> bool" where
  "chained len i = ((if len - 4 < i then 1 else 0 :: int) < len)"

text \<open>The tests of one pass of the validation loop; true when the pass returns nullptr.\<close>

definition byte_bad :: "platform \<Rightarrow> u8 \<Rightarrow> int \<Rightarrow> u8 list \<Rightarrow> int \<Rightarrow> bool" where
  "byte_bad pf respData len buf i =
     ((i < 4 \<and> buf ! nat i \<noteq> FRAME_HEADER ! nat i)
      \<or> (i = 4 \<and> uint (buf ! nat i) \<noteq> len - 12)
      \<or> (i = 5 \<and> buf ! nat i \<noteq> 0x00)
      \<or> (i = 6 \<and> buf ! nat i \<noteq> respData)
      \<or> (i = 7 \<and> buf ! nat i \<noteq> 0x01)
      \<or> (chained len i \<and> buf ! nat i \<noteq> footer_at pf (i - (len - 4))))"

text \<open>\<open>for (i=0; i<len; i++) if (...) return nullptr;\<close>: true when no pass returns.\<close>

definition validated :: "platform \<Rightarrow> u8 \<Rightarrow> u8 \<Rightarrow> u8 list \<Rightarrow> bool" where
  "validated pf respData len buf =
     list_all (\<lambda>i. \<not> byte_bad pf respData (uint len) buf (int i)) [0..<unat len]"

text \<open>
  The pointer that \<open>getAck\<close> returns: \<open>nullptr\<close> or \<open>this->buffer\<close>. A caller reads the
  acknowledgement through the returned pointer, that is from the \<open>buffer\<close> member.
\<close>

datatype ack_ptr = Nullptr | Buffer

definition getAck :: "platform \<Rightarrow> u8 \<Rightarrow> u8 \<Rightarrow> u8 list list \<Rightarrow> driver \<Rightarrow> ack_ptr \<times> driver" where
  "getAck pf respData len polls st =
     (case poll polls 0 (buffer st) (serial_in st) of
        (i, buf, q) \<Rightarrow>
          (if unat len \<le> i \<and> \<not> validated pf respData len buf then Nullptr else Buffer,
           st\<lparr>buffer := buf, serial_in := q\<rparr>))"


subsection \<open>Configuration mode and the commands sent inside it\<close>

text \<open>The test every caller applies: \<open>ack != nullptr && ack[8] == 0x00\<close>.\<close>

definition acked :: "ack_ptr \<times> driver \<Rightarrow> bool" where
  "acked r = (fst r = Buffer \<and> buffer (snd r) ! 8 = 0x00)"

definition enableConfig :: "platform \<Rightarrow> u8 list list \<Rightarrow> driver \<Rightarrow> bool \<times> driver" where
  "enableConfig pf polls st =
     (let data = [0xFF, 0x00, 0x01, 0x00];
          r = getAck pf (data ! 0) 18 polls (sendCommand pf data st)
      in (acked r, snd r))"

definition disableConfig :: "platform \<Rightarrow> u8 list list \<Rightarrow> driver \<Rightarrow> bool \<times> driver" where
  "disableConfig pf polls st =
     (let data = [0xFE, 0x00];
          r = getAck pf (data ! 0) 18 polls (sendCommand pf data st)
      in (acked r, snd r))"

text \<open>
  The body that \<open>resetDeviceSettings\<close>, \<open>restartModule\<close>, \<open>setParamConfig\<close>, the
  sensitivity setters and \<open>setBaudRate\<close> repeat word for word after building \<open>data\<close>.
  The three lists are the polling passes of the three calls of \<open>getAck\<close>.
\<close>

definition config_command ::
  "platform \<Rightarrow> u8 list \<Rightarrow> u8 list list \<Rightarrow> u8 list list \<Rightarrow> u8 list list \<Rightarrow> driver
     \<Rightarrow> bool \<times> driver" where
  "config_command pf data w_enable w_body w_disable st =
     (case enableConfig pf w_enable st of
        (entered, st1) \<Rightarrow>
          if \<not> entered then (False, st1)
          else
            let r = getAck pf (data ! 0) 14 w_body (sendCommand pf data st1);
                success = acked r
            in (success, snd (disableConfig pf w_disable (snd r))))"

definition resetDeviceSettings ::
  "platform \<Rightarrow> u8 list list \<Rightarrow> u8 list list \<Rightarrow> u8 list list \<Rightarrow> driver \<Rightarrow> bool \<times> driver" where
  "resetDeviceSettings pf = config_command pf [0xA2, 0x00]"

definition restartModule ::
  "platform \<Rightarrow> u8 list list \<Rightarrow> u8 list list \<Rightarrow> u8 list list \<Rightarrow> driver \<Rightarrow> bool \<times> driver" where
  "restartModule pf = config_command pf [0xA3, 0x00]"

definition setParamConfig ::
  "platform \<Rightarrow> u8 \<Rightarrow> u8 \<Rightarrow> u8 \<Rightarrow> u8 \<Rightarrow> u8 list list \<Rightarrow> u8 list list \<Rightarrow> u8 list list \<Rightarrow> driver
     \<Rightarrow> bool \<times> driver" where
  "setParamConfig pf mn mx duration outPinPolarity =
     config_command pf [0x02, 0x00, mn, mx, duration, 0x00, outPinPolarity]"

definition setMotionSensitivity ::
  "platform \<Rightarrow> u8 \<Rightarrow> u8 list list \<Rightarrow> u8 list list \<Rightarrow> u8 list list \<Rightarrow> driver \<Rightarrow> bool \<times> driver" where
  "setMotionSensitivity pf sen = config_command pf (0x03 # 0x00 # replicate 14 sen)"

definition setStaticSensitivity ::
  "platform \<Rightarrow> u8 \<Rightarrow> u8 list list \<Rightarrow> u8 list list \<Rightarrow> u8 list list \<Rightarrow> driver \<Rightarrow> bool \<times> driver" where
  "setStaticSensitivity pf sen = config_command pf (0x04 # 0x00 # replicate 14 sen)"

text \<open>The \<open>switch\<close> of \<open>setBaudRate\<close>: the value a \<open>case\<close> stores, or the \<open>default\<close>.\<close>

definition baud_case :: "int \<Rightarrow> u8 option" where
  "baud_case baud =
     (if baud = 9600 then Some 0x01
      else if baud = 19200 then Some 0x02
      else if baud = 38400 then Some 0x03
      else if baud = 57600 then Some 0x04
      else if baud = 115200 then Some 0x05
      else if baud = 230400 then Some 0x06
      else if baud = 256000 then Some 0x07
      else if baud = 460800 then Some 0x08
      else None)"

text \<open>
  \<open>data\<close> starts as \<open>{0x05, 0x00}\<close>; every \<open>case\<close> assigns \<open>data[0]\<close>; the
  \<open>default\<close> returns false.
\<close>

definition setBaudRate ::
  "platform \<Rightarrow> int \<Rightarrow> u8 list list \<Rightarrow> u8 list list \<Rightarrow> u8 list list \<Rightarrow> driver \<Rightarrow> bool \<times> driver" where
  "setBaudRate pf baud w_enable w_body w_disable st =
     (case baud_case baud of
        None \<Rightarrow> (False, st)
      | Some v \<Rightarrow> config_command pf ([0x05, 0x00][0 := v]) w_enable w_body w_disable st)"

text \<open>
  \<open>int min = 100; for (int i=10; i<24; i++) if (ack[i] < min) min = ack[i];\<close>
\<close>

definition lowest :: "u8 list \<Rightarrow> int" where
  "lowest ack =
     fold (\<lambda>i m. if uint (ack ! i) < m then uint (ack ! i) else m) [10..<24] 100"

text \<open>
  The getters that return an \<open>int\<close>: \<open>return false\<close> when configuration mode is not
  entered, the minimum when the acknowledgement is accepted, -1 otherwise.
\<close>

definition sensitivity_query ::
  "platform \<Rightarrow> u8 list \<Rightarrow> u8 list list \<Rightarrow> u8 list list \<Rightarrow> u8 list list \<Rightarrow> driver
     \<Rightarrow> int \<times> driver" where
  "sensitivity_query pf data w_enable w_body w_disable st =
     (case enableConfig pf w_enable st of
        (entered, st1) \<Rightarrow>
          if \<not> entered then (0, st1)
          else
            let r = getAck pf (data ! 0) 28 w_body (sendCommand pf data st1)
            in if acked r
               then (let m = lowest (buffer (snd r))
                     in (m, snd (disableConfig pf w_disable (snd r))))
               else (- 1, snd (disableConfig pf w_disable (snd r))))"

definition getMotionSensitivity ::
  "platform \<Rightarrow> u8 list list \<Rightarrow> u8 list list \<Rightarrow> u8 list list \<Rightarrow> driver \<Rightarrow> int \<times> driver" where
  "getMotionSensitivity pf = sensitivity_query pf [0x13, 0x00]"

definition getStaticSensitivity ::
  "platform \<Rightarrow> u8 list list \<Rightarrow> u8 list list \<Rightarrow> u8 list list \<Rightarrow> driver \<Rightarrow> int \<times> driver" where
  "getStaticSensitivity pf = sensitivity_query pf [0x14, 0x00]"

subsection \<open>readSerial and the telemetry accessors\<close>

text \<open>
  A reading of \<open>CURRENT_TIME\<close> is the number the macro yields: an
  \<open>unsigned long long\<close> in the earlier revision (\<open>esp_timer_get_time()/1000ULL\<close>), an
  \<open>unsigned long\<close> in the later one (\<open>millis()\<close>). The record holds the readings
  that \<open>readSerial\<close> takes outside its loop: in the refresh test, into \<open>timeRef\<close>,
  and into \<open>serialLastRead\<close>.
\<close>

record clock =
  at_entry :: nat
  at_start :: nat
  at_end :: nat

text \<open>
  One pass of the \<open>for\<close> loop sees the bytes that reached the port since the previous
  pass, and the reading of \<open>CURRENT_TIME\<close> in its time test.
\<close>

type_synonym tick = "u8 list \<times> nat"

definition header_bad :: "u8 list \<Rightarrow> int \<Rightarrow> bool" where
  "header_bad buf i =
     (buf ! 0 \<noteq> 0xF4
      \<or> (i > 0 \<and> buf ! 1 \<noteq> 0xF3)
      \<or> (i > 1 \<and> buf ! 2 \<noteq> 0xF2)
      \<or> (i > 2 \<and> buf ! 3 \<noteq> 0xF1))"

definition footer_bad :: "u8 list \<Rightarrow> int \<Rightarrow> bool" where
  "footer_bad buf i =
     ((i > 16 \<and> buf ! 17 \<noteq> 0xF8)
      \<or> (i > 17 \<and> buf ! 18 \<noteq> 0xF7)
      \<or> (i > 18 \<and> buf ! 19 \<noteq> 0xF6)
      \<or> (i > 19 \<and> buf ! 20 \<noteq> 0xF5))"

text \<open>What one pass does after storing its byte: leave with a result, or go on to \<open>i++\<close>.\<close>

datatype flow = Return bool | Next int

text \<open>
  The earlier revision chains the three tests with \<open>else if\<close>; the later one starts a
  new \<open>if\<close> at the footer test, which then sees the \<open>i\<close> that the header test set.
\<close>

definition checks :: "revision \<Rightarrow> u8 list \<Rightarrow> int \<Rightarrow> bool \<Rightarrow> flow" where
  "checks rv buf i late =
     (case rv of
        Rev_HardwareSerial \<Rightarrow>
          if header_bad buf i then Next (- 1)
          else if footer_bad buf i then Return False
          else if late then Return False
          else Next i
      | Rev_Stream \<Rightarrow>
          let i' = (if header_bad buf i then - 1 else i) in
          if footer_bad buf i' then Return False
          else if late then Return False
          else Next i')"

text \<open>\<open>serial.read()\<close> stored in a \<open>uint8_t\<close>: the next byte, or -1 when none is there.\<close>

definition read_byte :: "u8 list \<Rightarrow> u8" where
  "read_byte q = (case q of [] \<Rightarrow> 0xFF | b # _ \<Rightarrow> b)"

text \<open>
  The time test \<open>CURRENT_TIME - timeRef > ACK_TIMEOUT\<close> at the reading \<open>t\<close>, with
  \<open>long int timeRef\<close>. The earlier revision subtracts in \<open>unsigned long long\<close>, to
  which \<open>timeRef\<close> is converted with its sign; the later one subtracts in
  \<open>unsigned long\<close>. Both wrap around.
\<close>

definition timed_out :: "revision \<Rightarrow> u32 \<Rightarrow> nat \<Rightarrow> bool" where
  "timed_out rv timeRef t =
     (case rv of
        Rev_HardwareSerial \<Rightarrow> ACK_TIMEOUT < unat ((of_nat t :: u64) - scast timeRef)
      | Rev_Stream \<Rightarrow> ACK_TIMEOUT < unat ((of_nat t :: u32) - timeRef))"

text \<open>
  One pass of the \<open>for\<close> loop at position \<open>i\<close>: the bytes that arrived join the
  queue, \<open>buffer[i] = serial.read()\<close>, then the tests.
\<close>

definition pass :: "revision \<Rightarrow> u32 \<Rightarrow> tick \<Rightarrow> nat \<Rightarrow> driver \<Rightarrow> flow \<times> driver" where
  "pass rv timeRef tk i st =
     (let q = serial_in st @ fst tk;
          st' = st\<lparr>buffer := (buffer st)[i := read_byte q], serial_in := drop 1 q\<rparr>
      in (checks rv (buffer st') (int i) (timed_out rv timeRef (snd tk)), st'))"

text \<open>
  The \<open>for\<close> loop from position \<open>i\<close>. The result is \<open>None\<close> when the passes listed do
  not bring the loop to its end; otherwise \<open>False\<close> for \<open>return false\<close> and \<open>True\<close>
  when \<open>i\<close> reaches 21.
\<close>

fun capture :: "revision \<Rightarrow> u32 \<Rightarrow> tick list \<Rightarrow> nat \<Rightarrow> driver \<Rightarrow> (bool \<times> driver) option" where
  "capture rv timeRef [] i st = None"
| "capture rv timeRef (tk # ticks) i st =
     (case pass rv timeRef tk i st of
        (Return r, st') \<Rightarrow> Some (r, st')
      | (Next j, st') \<Rightarrow>
          if j + 1 < 21 then capture rv timeRef ticks (nat (j + 1)) st'
          else Some (True, st'))"

text \<open>The states in which the loop can stand at the head of a pass, from \<open>i = 0\<close>.\<close>

inductive capturing :: "revision \<Rightarrow> u32 \<Rightarrow> driver \<Rightarrow> nat \<Rightarrow> driver \<Rightarrow> bool"
  for rv :: revision and timeRef :: u32 and st0 :: driver where
  enter: "capturing rv timeRef st0 0 st0"
| again: "capturing rv timeRef st0 i st \<Longrightarrow> pass rv timeRef tk i st = (Next j, st')
     \<Longrightarrow> j + 1 < 21 \<Longrightarrow> capturing rv timeRef st0 (nat (j + 1)) st'"

text \<open>
  The refresh test
  \<open>serialLastRead != NULL && CURRENT_TIME - serialLastRead < REFRESH_THRESHOLD\<close> (the
  member \<open>refresh_threshold\<close> in the later revision) at the reading \<open>t\<close>, with
  \<open>unsigned long serialLastRead\<close>.
\<close>

definition fresh :: "revision \<Rightarrow> driver \<Rightarrow> nat \<Rightarrow> bool" where
  "fresh rv st t =
     (serialLastRead st \<noteq> 0
      \<and> (case rv of
            Rev_HardwareSerial \<Rightarrow>
              unat ((of_nat t :: u64) - ucast (serialLastRead st)) < REFRESH_THRESHOLD
          | Rev_Stream \<Rightarrow>
              unat ((of_nat t :: u32) - serialLastRead st) < unat (refresh_threshold st)))"

text \<open>
  \<open>timeRef\<close> and \<open>serialLastRead\<close> keep the low 32 bits of the reading assigned to
  them.
\<close>

definition readSerial :: "revision \<Rightarrow> clock \<Rightarrow> tick list \<Rightarrow> driver \<Rightarrow> (bool \<times> driver) option" where
  "readSerial rv clk ticks st =
     (if fresh rv st (at_entry clk)
      then Some (True, st)
      else
        case (if serial_in st \<noteq> [] then capture rv (of_nat (at_start clk)) ticks 0 st
              else Some (True, st)) of
          None \<Rightarrow> None
        | Some (ok, st') \<Rightarrow>
            if ok
            then Some (True, st'\<lparr>serialLastRead := of_nat (at_end clk),
                                 serialBuffer := take 21 (buffer st')\<rparr>)
            else Some (False, st'))"

text \<open>An accessor: -1 when \<open>readSerial\<close> fails, else the value read from \<open>serialBuffer\<close>.\<close>

definition accessor ::
  "(u8 list \<Rightarrow> int) \<Rightarrow> revision \<Rightarrow> clock \<Rightarrow> tick list \<Rightarrow> driver \<Rightarrow> (int \<times> driver) option" where
  "accessor field rv clk ticks st =
     (case readSerial rv clk ticks st of
        None \<Rightarrow> None
      | Some (ok, st') \<Rightarrow> Some (if \<not> ok then - 1 else field (serialBuffer st'), st'))"

definition targetState :: "revision \<Rightarrow> clock \<Rightarrow> tick list \<Rightarrow> driver \<Rightarrow> (int \<times> driver) option" where
  "targetState = accessor (\<lambda>sb. uint (sb ! 8))"

text \<open>
  \<open>serialBuffer[9] + serialBuffer[10] << 2\<close> in the earlier revision, where \<open>+\<close> binds
  tighter than \<open><<\<close>; \<open>serialBuffer[9] + (serialBuffer[10] << 8)\<close> in the later one.
\<close>

definition distance :: "revision \<Rightarrow> u8 \<Rightarrow> u8 \<Rightarrow> int" where
  "distance rv lo hi =
     (case rv of
        Rev_HardwareSerial \<Rightarrow> push_bit 2 (uint lo + uint hi)
      | Rev_Stream \<Rightarrow> uint lo + push_bit 8 (uint hi))"

definition movingDistance :: "revision \<Rightarrow> clock \<Rightarrow> tick list \<Rightarrow> driver \<Rightarrow> (int \<times> driver) option" where
  "movingDistance rv = accessor (\<lambda>sb. distance rv (sb ! 9) (sb ! 10)) rv"

definition movingEnergy :: "revision \<Rightarrow> clock \<Rightarrow> tick list \<Rightarrow> driver \<Rightarrow> (int \<times> driver) option" where
  "movingEnergy = accessor (\<lambda>sb. uint (sb ! 11))"

definition staticDistance :: "revision \<Rightarrow> clock \<Rightarrow> tick list \<Rightarrow> driver \<Rightarrow> (int \<times> driver) option" where
  "staticDistance rv = accessor (\<lambda>sb. distance rv (sb ! 12) (sb ! 13)) rv"

definition staticEnergy :: "revision \<Rightarrow> clock \<Rightarrow> tick list \<Rightarrow> driver \<Rightarrow> (int \<times> driver) option" where
  "staticEnergy = accessor (\<lambda>sb. uint (sb ! 14))"

subsection \<open>Vocabulary of the statements\<close>

text \<open>The header and footer bytes that \<open>readSerial\<close> compares against.\<close>

definition TELEMETRY_HEADER :: "u8 list" where
  "TELEMETRY_HEADER = [0xF4, 0xF3, 0xF2, 0xF1]"

definition TELEMETRY_FOOTER :: "u8 list" where
  "TELEMETRY_FOOTER = [0xF8, 0xF7, 0xF6, 0xF5]"

text \<open>No time test of the listed passes finds the time-out elapsed.\<close>

definition on_time :: "revision \<Rightarrow> u32 \<Rightarrow> tick list \<Rightarrow> bool" where
  "on_time rv timeRef ticks = list_all (\<lambda>tk. \<not> timed_out rv timeRef (snd tk)) ticks"

text \<open>
  What a run of the capture loop yields: whether it completed, the 21 bytes of the
  completed frame, and the bytes left in the receive queue.
\<close>

definition outcome :: "(bool \<times> driver) option \<Rightarrow> (bool \<times> u8 list \<times> u8 list) option" where
  "outcome = map_option (\<lambda>(ok, d). (ok, if ok then take 21 (buffer d) else [], serial_in d))"

text \<open>
  Values for the concrete examples: a platform with four-byte pointers and zero bytes
  around the arrays, an object whose arrays hold zeros, as an object of static storage
  duration does, and a telemetry frame.
\<close>

definition platform0 :: platform where
  "platform0 = \<lparr>ptr_size = 4, past_data = (\<lambda>_ _. 0), footer_oob = (\<lambda>_. 0)\<rparr>"



definition driver0 :: driver where
  "driver0 = LD2412 (replicate 32 0) (replicate 21 0)"

definition frame0 :: "u8 list" where
  "frame0 = [0xF4, 0xF3, 0xF2, 0xF1, 0x0D, 0x00, 0x02, 0xAA, 0x03, 0x01, 0x01, 0x32, 0x02,
             0x01, 0x3C, 0x00, 0x00, 0xF8, 0xF7, 0xF6, 0xF5]"

text \<open>The bytes that a call of \<open>sendCommand\<close> in the state \<open>st\<close> puts on the wire.\<close>

definition frame_bytes :: "platform \<Rightarrow> driver \<Rightarrow> u8 list \<Rightarrow> u8 list" where
  "frame_bytes pf st data =
     FRAME_HEADER @ [of_nat (ptr_size pf), snd (data_len st)]
       @ map (data_at pf (length (serial_out st)) data) [0..<unat (of_nat (ptr_size pf) :: u8)]
       @ FRAME_FOOTER"

section \<open>Properties\<close>

subsection \<open>Facts about the capture loops of getAck\<close>

lemma drain_append:
  "drain i buf (xs @ ys) = (case drain i buf xs of (i', buf', q') \<Rightarrow> drain i' buf' (q' @ ys))"
  by (induction xs arbitrary: i buf) auto

lemma poll_as_drain:
  "poll (a # ps) i buf q = drain i buf (q @ a @ concat ps)"
proof (induction ps arbitrary: a i buf q)
  case Nil
  then show ?case by (simp split: prod.splits)
next
  case (Cons b ps)
  obtain i' buf' q' where d: "drain i buf (q @ a) = (i', buf', q')"
    by (cases "drain i buf (q @ a)") auto
  have "poll (a # b # ps) i buf q = poll (b # ps) i' buf' q'"
    by (subst poll.simps(2)) (simp only: d prod.case)
  also have "\<dots> = drain i' buf' (q' @ b @ concat ps)"
    by (rule Cons.IH)
  also have "\<dots> = drain i buf ((q @ a) @ b @ concat ps)"
    by (simp only: drain_append [of i buf "q @ a"] d prod.case)
  finally show ?case by simp
qed

lemma drain_closed:
  "i \<le> BUFFER_SIZE \<Longrightarrow> length buf = BUFFER_SIZE \<Longrightarrow>
   drain i buf q =
     (min BUFFER_SIZE (i + length q),
      take i buf @ take (BUFFER_SIZE - i) q @ drop (min BUFFER_SIZE (i + length q)) buf,
      drop (BUFFER_SIZE - i) q)"
proof (induction q arbitrary: i buf)
  case Nil
  then show ?case by simp
next
  case (Cons b q)
  show ?case
  proof (cases "i < BUFFER_SIZE")
    case True
    have t: "take (Suc i) (buf[i := b]) = take i buf @ [b]"
      using True Cons.prems by (simp add: take_Suc_conv_app_nth)
    have s: "BUFFER_SIZE - i = Suc (BUFFER_SIZE - Suc i)"
      using True by simp
    have d: "drop (min BUFFER_SIZE (Suc i + length q)) (buf[i := b])
        = drop (min BUFFER_SIZE (Suc i + length q)) buf"
      using True by simp
    have "drain i buf (b # q) = drain (Suc i) (buf[i := b]) q"
      using True by simp
    also have "\<dots> = (min BUFFER_SIZE (Suc i + length q),
      take (Suc i) (buf[i := b]) @ take (BUFFER_SIZE - Suc i) q
        @ drop (min BUFFER_SIZE (Suc i + length q)) (buf[i := b]),
      drop (BUFFER_SIZE - Suc i) q)"
      using True Cons.prems by (intro Cons.IH) simp_all
    finally show ?thesis
      unfolding t d by (simp add: s)
  next
    case False
    then have "i = BUFFER_SIZE" using Cons.prems by simp
    then show ?thesis using Cons.prems by simp
  qed
qed

lemma poll_closed:
  assumes "length buf = BUFFER_SIZE" and "polls \<noteq> []"
  shows "poll polls 0 buf q =
     (min BUFFER_SIZE (length (q @ concat polls)),
      take BUFFER_SIZE (q @ concat polls) @ drop (length (q @ concat polls)) buf,
      drop BUFFER_SIZE (q @ concat polls))"
proof -
  obtain a ps where p: "polls = a # ps" using assms(2) by (cases polls) auto
  have m: "drop (min BUFFER_SIZE n) buf = drop n buf" for n
    using assms(1) by (cases "n \<le> BUFFER_SIZE") (simp_all add: min_def)
  show ?thesis
    unfolding p poll_as_drain
    using drain_closed [of 0 buf "q @ a @ concat ps"] assms(1) m [of "length (q @ a @ concat ps)"]
    by simp
qed

lemma sendCommand_keeps [simp]:
  "buffer (sendCommand pf data st) = buffer st"
  "serial_in (sendCommand pf data st) = serial_in st"
  "serialBuffer (sendCommand pf data st) = serialBuffer st"
  by (simp_all add: sendCommand_def Let_def)

lemma getAck_closed:
  assumes "length (buffer st) = BUFFER_SIZE" and "polls \<noteq> []"
  shows "getAck pf respData len polls st =
    (if unat len \<le> min BUFFER_SIZE (length (serial_in st @ concat polls))
        \<and> \<not> validated pf respData len
             (take BUFFER_SIZE (serial_in st @ concat polls)
                @ drop (length (serial_in st @ concat polls)) (buffer st))
     then Nullptr else Buffer,
     st\<lparr>buffer := take BUFFER_SIZE (serial_in st @ concat polls)
            @ drop (length (serial_in st @ concat polls)) (buffer st),
        serial_in := drop BUFFER_SIZE (serial_in st @ concat polls)\<rparr>)"
  unfolding getAck_def poll_closed [OF assms] by simp


lemma getAck_short_read:
  "fst (poll polls 0 (buffer st) (serial_in st)) < unat len
    \<Longrightarrow> fst (getAck pf respData len polls st) = Buffer"
  by (auto simp: getAck_def split: prod.splits)

lemma enableConfig_refused:
  assumes "length (buffer st) = BUFFER_SIZE" and "polls \<noteq> []"
    and "8 < length (serial_in st @ concat polls)" and "(serial_in st @ concat polls) ! 8 \<noteq> 0"
  shows "\<not> fst (enableConfig pf polls st)"
proof -
  define xs where "xs = serial_in st @ concat polls"
  let ?st = "sendCommand pf [0xFF, 0x00, 0x01, 0x00] st"
  have l: "length (buffer ?st) = BUFFER_SIZE" using assms(1) by simp
  have "buffer (snd (getAck pf 0xFF 18 polls ?st)) = take BUFFER_SIZE xs @ drop (length xs) (buffer st)"
    unfolding getAck_closed [OF l assms(2)] xs_def by simp
  moreover have "8 < length xs" and "xs ! 8 \<noteq> 0"
    using assms(3,4) by (simp_all add: xs_def)
  moreover from this have "(take BUFFER_SIZE xs @ drop (length xs) (buffer st)) ! 8 = xs ! 8"
    by (simp add: nth_append BUFFER_SIZE_def)
  ultimately have "buffer (snd (getAck pf 0xFF 18 polls ?st)) ! 8 \<noteq> 0"
    by simp
  then show ?thesis
    by (simp add: enableConfig_def acked_def)
qed

subsection \<open>Facts about the capture loop of readSerial\<close>

lemma nth_of_take_eq:
  "take n xs = take n ys \<Longrightarrow> k < n \<Longrightarrow> xs ! k = ys ! k"
  by (metis nth_take)

lemma header_bad_cong:
  assumes "take (Suc i) b1 = take (Suc i) b2"
  shows "header_bad b1 (int i) = header_bad b2 (int i)"
proof -
  have e: "k \<le> i \<Longrightarrow> b1 ! k = b2 ! k" for k
    using assms nth_of_take_eq [of "Suc i" b1 b2 k] by simp
  have "b1 ! 0 = b2 ! 0" using e [of 0] by simp
  moreover have "0 < i \<Longrightarrow> b1 ! 1 = b2 ! 1" using e [of 1] by simp
  moreover have "1 < i \<Longrightarrow> b1 ! 2 = b2 ! 2" using e [of 2] by simp
  moreover have "2 < i \<Longrightarrow> b1 ! 3 = b2 ! 3" using e [of 3] by simp
  ultimately show ?thesis unfolding header_bad_def by auto
qed

lemma footer_bad_cong:
  assumes "take (Suc i) b1 = take (Suc i) b2"
  shows "footer_bad b1 (int i) = footer_bad b2 (int i)"
proof -
  have e: "k \<le> i \<Longrightarrow> b1 ! k = b2 ! k" for k
    using assms nth_of_take_eq [of "Suc i" b1 b2 k] by simp
  have "16 < i \<Longrightarrow> b1 ! 17 = b2 ! 17" using e [of 17] by simp
  moreover have "17 < i \<Longrightarrow> b1 ! 18 = b2 ! 18" using e [of 18] by simp
  moreover have "18 < i \<Longrightarrow> b1 ! 19 = b2 ! 19" using e [of 19] by simp
  moreover have "19 < i \<Longrightarrow> b1 ! 20 = b2 ! 20" using e [of 20] by simp
  ultimately show ?thesis unfolding footer_bad_def by auto
qed

lemma footer_bad_restart [simp]: "\<not> footer_bad b (- 1)"
  by (simp add: footer_bad_def)

lemma checks_cong:
  assumes "take (Suc i) b1 = take (Suc i) b2"
  shows "checks rv b1 (int i) late = checks rv b2 (int i) late"
  using header_bad_cong [OF assms] footer_bad_cong [OF assms]
  by (cases rv) (simp_all add: checks_def)

lemma checks_Next: "checks rv b i late = Next j \<Longrightarrow> j = i \<or> j = - 1"
  by (cases rv) (auto simp: checks_def Let_def split: if_splits)

lemma take_Suc_update:
  "i < length b1 \<Longrightarrow> length b1 = length b2 \<Longrightarrow> take i b1 = take i b2
    \<Longrightarrow> take (Suc i) (b1[i := x]) = take (Suc i) (b2[i := x])"
  by (simp add: take_Suc_conv_app_nth)

lemma capture_buffer_independent:
  assumes "serial_in st1 = serial_in st2"
    and "length (buffer st1) = length (buffer st2)"
    and "take i (buffer st1) = take i (buffer st2)"
    and "i < 21" and "21 \<le> length (buffer st1)"
  shows "outcome (capture rv timeRef ticks i st1) = outcome (capture rv timeRef ticks i st2)"
  using assms
proof (induction ticks arbitrary: i st1 st2)
  case Nil
  then show ?case by (simp add: outcome_def)
next
  case (Cons tk ticks)
  let ?q = "serial_in st1 @ fst tk"
  let ?b1 = "(buffer st1)[i := read_byte ?q]"
  let ?b2 = "(buffer st2)[i := read_byte ?q]"
  let ?d1 = "st1\<lparr>buffer := ?b1, serial_in := drop 1 ?q\<rparr>"
  let ?d2 = "st2\<lparr>buffer := ?b2, serial_in := drop 1 ?q\<rparr>"
  let ?late = "timed_out rv timeRef (snd tk)"
  have t: "take (Suc i) ?b1 = take (Suc i) ?b2"
    using Cons.prems by (intro take_Suc_update) simp_all
  have c: "checks rv ?b1 (int i) ?late = checks rv ?b2 (int i) ?late"
    by (rule checks_cong [OF t])
  have p1: "pass rv timeRef tk i st1 = (checks rv ?b1 (int i) ?late, ?d1)"
    by (simp add: pass_def Let_def)
  have p2: "pass rv timeRef tk i st2 = (checks rv ?b1 (int i) ?late, ?d2)"
    using Cons.prems(1) c by (simp add: pass_def Let_def)
  show ?case
  proof (cases "checks rv ?b1 (int i) ?late")
    case (Return r)
    have "r = False" using Return by (cases rv) (auto simp: checks_def Let_def split: if_splits)
    then show ?thesis using Return p1 p2 by (simp add: outcome_def)
  next
    case (Next j)
    then consider "j = int i" | "j = - 1" using checks_Next by blast
    then show ?thesis
    proof cases
      case 1
      show ?thesis
      proof (cases "Suc i < 21")
        case True
        have "outcome (capture rv timeRef ticks (Suc i) ?d1)
            = outcome (capture rv timeRef ticks (Suc i) ?d2)"
          using Cons.prems True t by (intro Cons.IH) simp_all
        then show ?thesis using Next 1 True p1 p2 by (simp add: nat_add_distrib)
      next
        case False
        then have i: "i = 20" using Cons.prems by simp
        have "take 21 ?b1 = take 21 ?b2" using t i by simp
        then show ?thesis using Next 1 i p1 p2 by (simp add: outcome_def)
      qed
    next
      case 2
      have "outcome (capture rv timeRef ticks 0 ?d1) = outcome (capture rv timeRef ticks 0 ?d2)"
        using Cons.prems by (intro Cons.IH) simp_all
      then show ?thesis using Next 2 p1 p2 by simp
    qed
  qed
qed

lemma take_four: "4 \<le> length b \<Longrightarrow> take 4 b = [b ! 0, b ! 1, b ! 2, b ! 3]"
  by (auto simp: eval_nat_numeral Suc_le_length_iff)

text \<open>
  A pass that finds the header wrong goes on at position 0; only the later revision
  tests the time on that path, and returns false when the time is up.
\<close>

lemma pass_restart:
  "header_bad (buffer (snd (pass rv timeRef tk i st))) (int i) \<Longrightarrow>
   fst (pass rv timeRef tk i st)
     = (if rv = Rev_Stream \<and> timed_out rv timeRef (snd tk) then Return False else Next (- 1))"
  by (cases rv) (auto simp: pass_def checks_def Let_def)

lemma capturing_header:
  assumes "capturing rv timeRef st0 i st" and "4 \<le> length (buffer st0)"
  shows "length (buffer st) = length (buffer st0)
    \<and> take (min i 4) (buffer st) = take (min i 4) TELEMETRY_HEADER"
  using assms
proof (induction rule: capturing.induct)
  case enter
  then show ?case by simp
next
  case (again i st tk j st')
  let ?b = "buffer st'"
  have len: "length ?b = length (buffer st0)"
    using again by (auto simp: pass_def Let_def)
  have ck: "checks rv ?b (int i) (timed_out rv timeRef (snd tk)) = Next j"
    using again.hyps(2) by (auto simp: pass_def Let_def)
  show ?case
  proof (cases "j = - 1")
    case True
    then show ?thesis using len by simp
  next
    case False
    then have j: "j = int i" using checks_Next [OF ck] by simp
    have nb: "\<not> header_bad ?b (int i)"
      using ck False by (cases rv) (auto simp: checks_def Let_def split: if_splits)
    have "take (min (Suc i) 4) ?b = take (Suc i) (take 4 ?b)"
      by simp
    also have four: "take 4 ?b = [?b ! 0, ?b ! 1, ?b ! 2, ?b ! 3]"
      using len again.prems by (intro take_four) simp
    finally have pre: "take (min (Suc i) 4) ?b = take (Suc i) [?b ! 0, ?b ! 1, ?b ! 2, ?b ! 3]" .
    consider "i = 0" | "i = 1" | "i = 2" | "3 \<le> i" by linarith
    then have "take (min (Suc i) 4) ?b = take (min (Suc i) 4) TELEMETRY_HEADER"
    proof cases
      case 1
      then show ?thesis using nb unfolding pre
        by (simp add: header_bad_def TELEMETRY_HEADER_def)
    next
      case 2
      then show ?thesis using nb unfolding pre
        by (simp add: header_bad_def TELEMETRY_HEADER_def)
    next
      case 3
      then show ?thesis using nb unfolding pre
        by (simp add: header_bad_def TELEMETRY_HEADER_def)
    next
      case 4
      then have m: "min (Suc i) 4 = 4" by simp
      show ?thesis using nb 4 unfolding m four
        by (simp add: header_bad_def TELEMETRY_HEADER_def)
    qed
    then show ?thesis using len j by (simp add: nat_add_distrib)
  qed
qed

lemma frame_checks:
  assumes "take 4 f = TELEMETRY_HEADER" and "drop 17 f = TELEMETRY_FOOTER" and "length f = 21"
  shows "\<not> header_bad f j \<and> \<not> footer_bad f j"
proof -
  have h: "f ! k = TELEMETRY_HEADER ! k" if "k < 4" for k
    using that assms(1) nth_take [of k 4 f] by simp
  have t: "f ! (17 + k) = TELEMETRY_FOOTER ! k" if "k < 4" for k
    using that assms(2,3) nth_drop [of 17 f k] by simp
  have "f ! 0 = 0xF4" "f ! 1 = 0xF3" "f ! 2 = 0xF2" "f ! 3 = 0xF1"
    using h [of 0] h [of 1] h [of 2] h [of 3] by (simp_all add: TELEMETRY_HEADER_def)
  moreover have "f ! 17 = 0xF8" "f ! 18 = 0xF7" "f ! 19 = 0xF6" "f ! 20 = 0xF5"
    using t [of 0] t [of 1] t [of 2] t [of 3] by (simp_all add: TELEMETRY_FOOTER_def)
  ultimately show ?thesis by (simp add: header_bad_def footer_bad_def)
qed

lemma capture_frame:
  assumes "take 4 f = TELEMETRY_HEADER" and "drop 17 f = TELEMETRY_FOOTER" and "length f = 21"
    and "i < 21" and "21 \<le> length (buffer st)" and "take i (buffer st) = take i f"
    and "serial_in st = drop i f @ rest" and "21 - i \<le> length ticks"
    and "on_time rv timeRef (take (21 - i) ticks)"
  shows "capture rv timeRef ticks i st =
    Some (True, st\<lparr>buffer := f @ drop 21 (buffer st),
                    serial_in := rest @ concat (map fst (take (21 - i) ticks))\<rparr>)"
  using assms(4-)
proof (induction ticks arbitrary: i st rest)
  case Nil
  then show ?case by simp
next
  case (Cons tk ticks)
  let ?q = "serial_in st @ fst tk"
  let ?b = "(buffer st)[i := f ! i]"
  let ?d = "st\<lparr>buffer := ?b, serial_in := drop (Suc i) f @ rest @ fst tk\<rparr>"
  have fi: "drop i f = f ! i # drop (Suc i) f"
    using Cons.prems(1) assms(3) by (simp add: Cons_nth_drop_Suc)
  have rb: "read_byte ?q = f ! i"
    using Cons.prems(4) fi by (simp add: read_byte_def)
  have dq: "drop 1 ?q = drop (Suc i) f @ rest @ fst tk"
    using Cons.prems(4) fi by simp
  have t: "take (Suc i) ?b = take (Suc i) f"
    using Cons.prems assms(3) by (simp add: take_Suc_conv_app_nth)
  have nl: "\<not> timed_out rv timeRef (snd tk)"
    using Cons.prems(1,6) by (cases "21 - i") (simp_all add: on_time_def)
  have "\<not> header_bad ?b (int i) \<and> \<not> footer_bad ?b (int i)"
    using header_bad_cong [OF t] footer_bad_cong [OF t] frame_checks [OF assms(1-3)] by simp
  then have ck: "checks rv ?b (int i) (timed_out rv timeRef (snd tk)) = Next (int i)"
    using nl by (cases rv) (simp_all add: checks_def)
  have p: "pass rv timeRef tk i st = (Next (int i), ?d)"
    using ck rb dq by (simp add: pass_def Let_def)
  show ?case
  proof (cases "Suc i < 21")
    case True
    have s: "21 - i = Suc (21 - Suc i)" using True by simp
    have "capture rv timeRef ticks (Suc i) ?d =
      Some (True, ?d\<lparr>buffer := f @ drop 21 (buffer ?d),
        serial_in := (rest @ fst tk) @ concat (map fst (take (21 - Suc i) ticks))\<rparr>)"
      using Cons.prems True t s by (intro Cons.IH) (simp_all add: on_time_def)
    then show ?thesis
      using p True Cons.prems(1) by (simp add: nat_add_distrib s)
  next
    case False
    then have i: "i = 20" using Cons.prems(1) by simp
    have "take 21 ?b = f" using t i assms(3) by simp
    then have "?b = f @ drop 21 ?b" by (metis append_take_drop_id)
    then have b: "?b = f @ drop 21 (buffer st)" using i by simp
    have h1: "\<not> int i + 1 < 21" and h2: "take (21 - i) (tk # ticks) = [tk]"
      and h3: "drop (Suc i) f = []"
      using i assms(3) by simp_all
    show ?thesis
      unfolding capture.simps p h2 using h1 by (simp add: b h3)
  qed
qed

lemma capture_prefix:
  assumes "4 \<le> length (buffer st)" and "serial_in st = [0xF4, 0xF3, 0x00, 0xF1] @ s"
  shows "(\<exists>d. capture rv timeRef (t1 # t2 # t3 # t4 # ts) 0 st = Some (False, d))
    \<or> capture rv timeRef (t1 # t2 # t3 # t4 # ts) 0 st =
        capture rv timeRef ts 0
          (st\<lparr>buffer := (buffer st)[0 := 0xF4, 1 := 0xF3, 2 := 0x00, 0 := 0xF1],
              serial_in := s @ fst t1 @ fst t2 @ fst t3 @ fst t4\<rparr>)"
proof -
  obtain x0 x1 x2 x3 r where b: "buffer st = x0 # x1 # x2 # x3 # r"
    using assms(1) by (auto simp: eval_nat_numeral Suc_le_length_iff)
  show ?thesis
    using assms(2) b
    by (cases rv)
      (simp_all add: pass_def checks_def header_bad_def footer_bad_def read_byte_def Let_def)
qed

text \<open>
  When the four passes that read \<open>F4 F3 00 F1\<close> are on time, the loop stands at
  position 0 again after them, and the run yields what the stream without these four
  bytes yields.
\<close>

lemma capture_restart:
  assumes "4 \<le> length (buffer st)" and "serial_in st = [0xF4, 0xF3, 0x00, 0xF1] @ s"
    and "on_time rv timeRef [t1, t2, t3, t4]"
  shows "capture rv timeRef (t1 # t2 # t3 # t4 # ts) 0 st =
        capture rv timeRef ts 0
          (st\<lparr>buffer := (buffer st)[0 := 0xF4, 1 := 0xF3, 2 := 0x00, 0 := 0xF1],
              serial_in := s @ fst t1 @ fst t2 @ fst t3 @ fst t4\<rparr>)"
proof -
  obtain x0 x1 x2 x3 r where b: "buffer st = x0 # x1 # x2 # x3 # r"
    using assms(1) by (auto simp: eval_nat_numeral Suc_le_length_iff)
  show ?thesis
    using assms(2,3) b
    by (cases rv)
      (simp_all add: pass_def checks_def header_bad_def footer_bad_def read_byte_def Let_def
        on_time_def)
qed

lemma capture_spoilt_header:
  assumes "length (buffer st) = BUFFER_SIZE" and "serial_in st = [0xF4, 0xF3, 0x00, 0xF1] @ s"
    and "on_time rv timeRef [t1, t2, t3, t4]"
  shows "outcome (capture rv timeRef (t1 # t2 # t3 # t4 # ts) 0 st)
    = outcome (capture rv timeRef ts 0 (st\<lparr>serial_in := s @ fst t1 @ fst t2 @ fst t3 @ fst t4\<rparr>))"
proof -
  have four: "4 \<le> length (buffer st)" using assms(1) by (simp add: BUFFER_SIZE_def)
  show ?thesis
    unfolding capture_restart [OF four assms(2,3)]
    using assms(1) by (intro capture_buffer_independent) (simp_all add: BUFFER_SIZE_def)
qed

text \<open>
  In both revisions \<open>F4 F3 00 F1\<close> followed by \<open>frame0\<close>, all in the queue and on
  time, yields \<open>frame0\<close>.
\<close>

lemma spoilt_header_example:
  "outcome (capture rv 0 (replicate 25 ([], 0)) 0
      (driver0\<lparr>serial_in := [0xF4, 0xF3, 0x00, 0xF1] @ frame0\<rparr>))
   = Some (True, frame0, [])"
proof -
  let ?tk = "([] :: u8 list, 0 :: nat)"
  let ?ticks = "replicate 21 ?tk"
  let ?st = "driver0\<lparr>serial_in := frame0\<rparr>"
  let ?sp = "driver0\<lparr>serial_in := [0xF4, 0xF3, 0x00, 0xF1] @ frame0\<rparr>"
  have nt: "\<not> timed_out rv 0 0"
    by (cases rv) (simp_all add: timed_out_def)
  have f: "take 4 frame0 = TELEMETRY_HEADER" "drop 17 frame0 = TELEMETRY_FOOTER" "length frame0 = 21"
    by (simp_all add: frame0_def TELEMETRY_HEADER_def TELEMETRY_FOOTER_def)
  have "capture rv 0 ?ticks 0 ?st =
      Some (True, ?st\<lparr>buffer := frame0 @ drop 21 (buffer ?st),
                       serial_in := [] @ concat (map fst (take (21 - 0) ?ticks))\<rparr>)"
    by (rule capture_frame [OF f])
      (simp_all add: driver0_def LD2412_def on_time_def list_all_iff nt)
  then have run: "outcome (capture rv 0 ?ticks 0 ?st) = Some (True, frame0, [])"
    using f(3) by (simp add: outcome_def)
  have r: "replicate 25 ?tk = ?tk # ?tk # ?tk # ?tk # ?ticks"
    by (simp add: eval_nat_numeral)
  have "outcome (capture rv 0 (?tk # ?tk # ?tk # ?tk # ?ticks) 0 ?sp)
      = outcome (capture rv 0 ?ticks 0 (?sp\<lparr>serial_in := frame0 @ fst ?tk @ fst ?tk @ fst ?tk @ fst ?tk\<rparr>))"
    by (rule capture_spoilt_header)
      (simp_all add: driver0_def LD2412_def BUFFER_SIZE_def on_time_def nt)
  then show ?thesis
    using run by (simp add: r)
qed

text \<open>
  With the header, 13 payload bytes and the footer in the receive queue at the call, a
  capture due and 21 passes on time, \<open>readSerial\<close> returns true after exactly these
  21 bytes, with the frame in \<open>serialBuffer\<close>.
\<close>

lemma readSerial_frame:
  assumes "length (buffer st) = BUFFER_SIZE" and "length payload = 13"
    and "serial_in st = TELEMETRY_HEADER @ payload @ TELEMETRY_FOOTER @ rest"
    and "\<not> fresh rv st (at_entry clk)"
    and "21 \<le> length ticks" and "on_time rv (of_nat (at_start clk)) (take 21 ticks)"
  shows "readSerial rv clk ticks st =
          Some (True,
            st\<lparr>buffer := TELEMETRY_HEADER @ payload @ TELEMETRY_FOOTER @ drop 21 (buffer st),
               serial_in := rest @ concat (map fst (take 21 ticks)),
               serialLastRead := of_nat (at_end clk),
               serialBuffer := TELEMETRY_HEADER @ payload @ TELEMETRY_FOOTER\<rparr>)"
proof -
  define f where "f = TELEMETRY_HEADER @ payload @ TELEMETRY_FOOTER"
  have f: "take 4 f = TELEMETRY_HEADER" "drop 17 f = TELEMETRY_FOOTER" "length f = 21"
    using assms(2) by (simp_all add: f_def TELEMETRY_HEADER_def TELEMETRY_FOOTER_def)
  have c: "capture rv (of_nat (at_start clk)) ticks 0 st =
      Some (True, st\<lparr>buffer := f @ drop 21 (buffer st),
                      serial_in := rest @ concat (map fst (take (21 - 0) ticks))\<rparr>)"
    using assms by (intro capture_frame [OF f]) (simp_all add: f_def BUFFER_SIZE_def)
  have ne: "serial_in st \<noteq> []" using assms(3) by (simp add: TELEMETRY_HEADER_def)
  show ?thesis
    unfolding readSerial_def using assms(4) ne c f(3) by (simp add: f_def)
qed

text \<open>
  A queue that holds no \<open>F4\<close> and receives nothing: every pass stores a byte other
  than \<open>F4\<close> at position 0 (\<open>0xFF\<close> when the queue is empty) and the loop starts
  again. The later revision leaves with false once the time is up; the earlier revision
  has no time test on this path and does not leave.
\<close>

lemma starved_pass:
  assumes "0xF4 \<notin> set (serial_in st)" and "buffer st \<noteq> []"
  shows "header_bad (buffer (snd (pass rv timeRef ([], t) 0 st))) 0"
    and "0xF4 \<notin> set (serial_in (snd (pass rv timeRef ([], t) 0 st)))"
    and "buffer (snd (pass rv timeRef ([], t) 0 st)) \<noteq> []"
proof -
  have nb: "read_byte (serial_in st) \<noteq> 0xF4"
    using assms(1) by (auto simp: read_byte_def split: list.splits)
  then show "header_bad (buffer (snd (pass rv timeRef ([], t) 0 st))) 0"
    using assms(2) by (auto simp: pass_def Let_def header_bad_def neq_Nil_conv)
  show "0xF4 \<notin> set (serial_in (snd (pass rv timeRef ([], t) 0 st)))"
    using assms(1) by (auto simp: pass_def Let_def dest: in_set_dropD)
  show "buffer (snd (pass rv timeRef ([], t) 0 st)) \<noteq> []"
    using assms(2) by (simp add: pass_def Let_def)
qed

lemma capture_without_header:
  assumes "0xF4 \<notin> set (serial_in st)" and "buffer st \<noteq> []"
  shows "map_option fst (capture rv timeRef (map (Pair []) ts) 0 st) \<in> {None, Some False}"
  using assms
proof (induction ts arbitrary: st)
  case Nil
  then show ?case by simp
next
  case (Cons t ts)
  obtain fl d where p: "pass rv timeRef ([], t) 0 st = (fl, d)"
    by (cases "pass rv timeRef ([], t) 0 st") auto
  have hb: "header_bad (buffer d) (int 0)" and d: "0xF4 \<notin> set (serial_in d)" "buffer d \<noteq> []"
    using starved_pass [OF Cons.prems, of rv timeRef t] p by simp_all
  have "fl = (if rv = Rev_Stream \<and> timed_out rv timeRef t then Return False else Next (- 1))"
    using pass_restart [of rv timeRef "([], t)" 0 st] hb p by simp
  then show ?case
    using Cons.IH [OF d] p by (auto split: if_splits)
qed

lemma capture_spins:
  assumes "0xF4 \<notin> set (serial_in st)" and "buffer st \<noteq> []"
  shows "capture Rev_HardwareSerial timeRef (map (Pair []) ts) 0 st = None"
  using assms
proof (induction ts arbitrary: st)
  case Nil
  then show ?case by simp
next
  case (Cons t ts)
  obtain fl d where p: "pass Rev_HardwareSerial timeRef ([], t) 0 st = (fl, d)"
    by (cases "pass Rev_HardwareSerial timeRef ([], t) 0 st") auto
  have hb: "header_bad (buffer d) (int 0)" and d: "0xF4 \<notin> set (serial_in d)" "buffer d \<noteq> []"
    using starved_pass [OF Cons.prems, of Rev_HardwareSerial timeRef t] p by simp_all
  have "fl = Next (- 1)"
    using pass_restart [of Rev_HardwareSerial timeRef "([], t)" 0 st] hb p by simp
  then show ?case
    using Cons.IH [OF d] p by simp
qed

text \<open>
  In the earlier revision a reading of \<open>2^31\<close> milliseconds stored in \<open>timeRef\<close> is
  negative, and the time test holds at once.
\<close>

lemma timed_out_beyond_31_bits:
  "timed_out Rev_HardwareSerial (of_nat 2147483648) 2147483648"
  by (simp add: timed_out_def ACK_TIMEOUT_def)

subsection \<open>Facts about the sensitivity getters and the sessions\<close>

lemma fold_min_Min:
  "fold (\<lambda>i m. if f i < m then f i else m) xs (m0 :: int) = Min (insert m0 (f ` set xs))"
proof (induction xs arbitrary: m0)
  case Nil
  then show ?case by simp
next
  case (Cons x xs)
  have "(if f x < m0 then f x else m0) = min (f x) m0" by (simp add: min_def)
  then have "fold (\<lambda>i m. if f i < m then f i else m) (x # xs) m0
      = Min (insert (min (f x) m0) (f ` set xs))"
    by (simp add: Cons.IH)
  also have "\<dots> = Min (insert m0 (f ` set (x # xs)))"
    by (cases "xs = []") (simp_all add: min.assoc min.commute min.left_commute)
  finally show ?case .
qed

lemma gates_as_slice:
  assumes "24 \<le> length ack"
  shows "map (\<lambda>i. ack ! i) [10..<24] = take 14 (drop 10 ack)"
proof (rule nth_equalityI)
  show "length (map (\<lambda>i. ack ! i) [10..<24]) = length (take 14 (drop 10 ack))"
    using assms by simp
next
  fix i
  assume "i < length (map (\<lambda>i. ack ! i) [10..<24])"
  then have i: "i < 14" by simp
  then have "map (\<lambda>i. ack ! i) [10..<24] ! i = ack ! (10 + i)"
    by (intro nth_map_upt) simp
  moreover have "take 14 (drop 10 ack) ! i = ack ! (10 + i)"
    using i assms by simp
  ultimately show "map (\<lambda>i. ack ! i) [10..<24] ! i = take 14 (drop 10 ack) ! i"
    by (simp only:)
qed

lemma lowest_min:
  assumes "24 \<le> length ack"
  shows "lowest ack = min 100 (Min (uint ` set (take 14 (drop 10 ack))))"
proof -
  have s: "(\<lambda>i. uint (ack ! i)) ` set [10..<24] = uint ` set (take 14 (drop 10 ack))"
    using gates_as_slice [OF assms] by (metis image_image image_set)
  have ne: "take 14 (drop 10 ack) \<noteq> []" using assms by auto
  have "lowest ack = Min (insert 100 ((\<lambda>i. uint (ack ! i)) ` set [10..<24]))"
    unfolding lowest_def by (rule fold_min_Min)
  also have "\<dots> = Min (insert 100 (uint ` set (take 14 (drop 10 ack))))"
    by (simp only: s)
  also have "\<dots> = min 100 (Min (uint ` set (take 14 (drop 10 ack))))"
    using ne by (subst Min_insert) simp_all
  finally show ?thesis .
qed

lemma drain_length: "length (fst (snd (drain i buf q))) = length buf"
  by (induction q arbitrary: i buf) auto

lemma poll_length: "length (fst (snd (poll polls i buf q))) = length buf"
proof (induction polls arbitrary: i buf q)
  case Nil
  then show ?case by simp
next
  case (Cons a polls)
  obtain i' buf' q' where d: "drain i buf (q @ a) = (i', buf', q')"
    by (cases "drain i buf (q @ a)") auto
  have "length buf' = length buf"
    using drain_length [of i buf "q @ a"] d by simp
  then show ?case using Cons.IH [of i' buf' q'] d by simp
qed

lemma getAck_buffer_length:
  "length (buffer (snd (getAck pf respData len polls st))) = length (buffer st)"
proof -
  obtain i buf q where p: "poll polls 0 (buffer st) (serial_in st) = (i, buf, q)"
    by (cases "poll polls 0 (buffer st) (serial_in st)") auto
  then show ?thesis
    using poll_length [of polls 0 "buffer st" "serial_in st"] by (simp add: getAck_def)
qed

lemma enableConfig_buffer_length:
  "length (buffer (snd (enableConfig pf polls st))) = length (buffer st)"
  by (simp add: enableConfig_def Let_def getAck_buffer_length)

lemma getAck_keeps [simp]:
  "serial_out (snd (getAck pf respData len polls st)) = serial_out st"
  "data_len (snd (getAck pf respData len polls st)) = data_len st"
  by (simp_all add: getAck_def split: prod.splits)

lemma sendCommand_writes:
  "serial_out (sendCommand pf data st) = serial_out st @ frame_bytes pf st data"
  "snd (data_len (sendCommand pf data st)) = snd (data_len st)"
  by (simp_all add: sendCommand_def frame_bytes_def Let_def)

lemma enableConfig_writes:
  "serial_out (snd (enableConfig pf polls st))
     = serial_out st @ frame_bytes pf st [0xFF, 0x00, 0x01, 0x00]"
  by (simp add: enableConfig_def Let_def sendCommand_writes)

lemma disableConfig_writes:
  "serial_out (snd (disableConfig pf polls st))
     = serial_out st @ frame_bytes pf st [0xFE, 0x00]"
  by (simp add: disableConfig_def Let_def sendCommand_writes)

text \<open>
  The operations that return a \<open>bool\<close>: the body command is written only when
  configuration mode was entered, the disable command is written after it whatever the
  body's acknowledgement was, and the result is the body's, in which the polling
  passes of the disable exchange do not occur.
\<close>

lemma config_command_session:
  "fst (config_command pf data w_enable w_body w_disable st)
     = (fst (enableConfig pf w_enable st)
        \<and> acked (getAck pf (data ! 0) 14 w_body
             (sendCommand pf data (snd (enableConfig pf w_enable st)))))"
  "serial_out (snd (config_command pf data w_enable w_body w_disable st))
     = serial_out st @ frame_bytes pf st [0xFF, 0x00, 0x01, 0x00]
         @ (if fst (enableConfig pf w_enable st)
            then frame_bytes pf (snd (enableConfig pf w_enable st)) data
              @ frame_bytes pf
                  (snd (getAck pf (data ! 0) 14 w_body
                     (sendCommand pf data (snd (enableConfig pf w_enable st)))))
                  [0xFE, 0x00]
            else [])"
proof -
  obtain e st1 where en: "enableConfig pf w_enable st = (e, st1)"
    by (cases "enableConfig pf w_enable st") auto
  define st3 where "st3 = snd (getAck pf (data ! 0) 14 w_body (sendCommand pf data st1))"
  have o1: "serial_out st1 = serial_out st @ frame_bytes pf st [0xFF, 0x00, 0x01, 0x00]"
    using enableConfig_writes [of pf w_enable st] en by simp
  have o3: "serial_out st3 = serial_out st1 @ frame_bytes pf st1 data"
    by (simp add: st3_def sendCommand_writes)
  show "fst (config_command pf data w_enable w_body w_disable st)
     = (fst (enableConfig pf w_enable st)
        \<and> acked (getAck pf (data ! 0) 14 w_body
             (sendCommand pf data (snd (enableConfig pf w_enable st)))))"
    by (simp add: config_command_def en Let_def)
  have "serial_out (snd (disableConfig pf w_disable st3))
      = serial_out st @ frame_bytes pf st [0xFF, 0x00, 0x01, 0x00]
          @ frame_bytes pf st1 data @ frame_bytes pf st3 [0xFE, 0x00]"
    unfolding disableConfig_writes o3 o1 by simp
  then show "serial_out (snd (config_command pf data w_enable w_body w_disable st))
     = serial_out st @ frame_bytes pf st [0xFF, 0x00, 0x01, 0x00]
         @ (if fst (enableConfig pf w_enable st)
            then frame_bytes pf (snd (enableConfig pf w_enable st)) data
              @ frame_bytes pf
                  (snd (getAck pf (data ! 0) 14 w_body
                     (sendCommand pf data (snd (enableConfig pf w_enable st)))))
                  [0xFE, 0x00]
            else [])"
    using o1 by (simp add: config_command_def en Let_def st3_def)
qed

subsection \<open>The frame that sendCommand writes\<close>

text \<open>
  Claim C1. The claim asks for a length field of \<open>1 + payload.length\<close> and for every
  byte of the command to be written. The code takes the length from \<open>sizeof(data)\<close>,
  the size of a pointer. Where pointers have four bytes, the 16-byte command of
  \<open>setMotionSensitivity(40)\<close> goes out with length field 4 and its first four bytes
  only: \<open>FD FC FB FA 04 00 03 00 28 28 04 03 02 01\<close>.
\<close>

theorem sendCommand_pointer_size_frame:
  "serial_out (sendCommand (pf\<lparr>ptr_size := 4\<rparr>) (0x03 # 0x00 # replicate 14 0x28) (LD2412 b sb))
     = [0xFD, 0xFC, 0xFB, 0xFA, 0x04, 0x00, 0x03, 0x00, 0x28, 0x28, 0x04, 0x03, 0x02, 0x01]"
  by (simp add: sendCommand_def LD2412_def FRAME_HEADER_def FRAME_FOOTER_def data_at_def upt_rec)

subsection \<open>What getAck returns\<close>

text \<open>
  Claim C2. The claim asks for nullptr on a time-out and on a short read. The code
  validates only when at least \<open>len\<close> bytes were stored and returns \<open>this->buffer\<close>
  otherwise: with no byte received in two polling passes, and with 7 of 18 bytes
  received, \<open>getAck(0xFF, 18)\<close> returns the buffer.
\<close>

theorem getAck_returns_buffer_on_short_read:
  "fst (getAck pf 0xFF 18 [[], []] (LD2412 b sb)) = Buffer
   \<and> fst (getAck pf 0xFF 18 [[0xFD, 0xFC, 0xFB, 0xFA, 0x06, 0x00, 0xFF]] (LD2412 b sb)) = Buffer"
  by (simp add: getAck_def LD2412_def BUFFER_SIZE_def)

text \<open>
  Claim C3. The claim says that validation leaves the status byte at offset 8 free.
  In the code the footer test applies at every position, because \<open>len-4<i<len\<close>
  compares a truth value with \<open>len\<close>, so the byte at offset 8 is compared with
  \<open>FRAME_FOOTER[8-(len-4)]\<close>. Whatever that out-of-range read finds, two 14-byte
  acknowledgements of command \<open>0xA2\<close> that differ in the status byte alone are never
  both accepted.
\<close>

theorem validated_constrains_status_byte:
  "\<not> (validated pf 0xA2 14
         [0xFD, 0xFC, 0xFB, 0xFA, 0x02, 0x00, 0xA2, 0x01, 0x00, 0x00, 0x04, 0x03, 0x02, 0x01]
      \<and> validated pf 0xA2 14
         [0xFD, 0xFC, 0xFB, 0xFA, 0x02, 0x00, 0xA2, 0x01, 0x01, 0x00, 0x04, 0x03, 0x02, 0x01])"
  by (simp add: validated_def byte_bad_def chained_def upt_rec FRAME_HEADER_def)

subsection \<open>The bound of getAck's capture\<close>





subsection \<open>Commands in configuration mode\<close>

text \<open>
  Claim C6. The claim asks every operation wrapped in configuration mode to return
  failure when the mode is not entered. \<open>getMotionSensitivity\<close> documents -1 as its
  failure value, and leaves with \<open>return false\<close>, that is 0, when \<open>enableConfig\<close>
  fails: here the device answers the enable command with status byte 1.
\<close>

theorem getMotionSensitivity_not_entered:
  "fst (getMotionSensitivity pf
     [[0xFD, 0xFC, 0xFB, 0xFA, 0x06, 0x00, 0xFF, 0x01, 0x01, 0x00, 0x00, 0x00, 0x00, 0x00,
       0x04, 0x03, 0x02, 0x01]]
     w2 w3 driver0) = 0"
proof -
  have "\<not> fst (enableConfig pf
     [[0xFD, 0xFC, 0xFB, 0xFA, 0x06, 0x00, 0xFF, 0x01, 0x01, 0x00, 0x00, 0x00, 0x00, 0x00,
       0x04, 0x03, 0x02, 0x01]]
     driver0)"
    by (rule enableConfig_refused) (simp_all add: driver0_def LD2412_def BUFFER_SIZE_def)
  then show ?thesis
    unfolding getMotionSensitivity_def sensitivity_query_def
    by (cases "enableConfig pf
     [[0xFD, 0xFC, 0xFB, 0xFA, 0x06, 0x00, 0xFF, 0x01, 0x01, 0x00, 0x00, 0x00, 0x00, 0x00,
       0x04, 0x03, 0x02, 0x01]]
     driver0") simp
qed

subsection \<open>The accessors before any capture\<close>

text \<open>
  Claim C7. The claim asks for -1 from an accessor called before any byte has arrived.
  On a fresh object with an empty receive queue \<open>readSerial\<close> skips its loop, copies
  \<open>buffer\<close> into \<open>serialBuffer\<close> and returns true, so \<open>targetState\<close> returns the byte
  that happened to be at \<open>buffer[8]\<close>, which is never -1.
\<close>

theorem targetState_without_capture:
  "map_option fst (targetState rv clk ticks (LD2412 b sb)) = Some (uint (take 21 b ! 8))
   \<and> map_option fst (targetState rv clk ticks (LD2412 b sb)) \<noteq> Some (- 1)"
proof -
  have "0 \<le> uint (take 21 b ! 8)" by simp
  then have "uint (take 21 b ! 8) \<noteq> - 1" by linarith
  then show ?thesis
    by (simp add: targetState_def accessor_def readSerial_def fresh_def LD2412_def)
qed

subsection \<open>setBaudRate\<close>

text \<open>An argument outside the table leaves the object and the port as they were.\<close>

lemma setBaudRate_rejects:
  "baud \<notin> {9600, 19200, 38400, 57600, 115200, 230400, 256000, 460800}
    \<Longrightarrow> setBaudRate pf baud w1 w2 w3 st = (False, st)"
  by (simp add: setBaudRate_def baud_case_def)

text \<open>
  Claim C8. The claim asks for command id \<open>0x05\<close> followed by the table's byte. Every
  \<open>case\<close> of the \<open>switch\<close> stores the table's byte in \<open>data[0]\<close>, over the command id:
  \<open>setBaudRate(9600)\<close> runs the exchange with the command \<open>01 00\<close>, and
  \<open>setBaudRate(115200)\<close> with \<open>05 00\<close>.
\<close>

theorem setBaudRate_overwrites_command_word:
  "setBaudRate pf 9600 w1 w2 w3 st = config_command pf [0x01, 0x00] w1 w2 w3 st
   \<and> setBaudRate pf 115200 w1 w2 w3 st = config_command pf [0x05, 0x00] w1 w2 w3 st"
  by (simp add: setBaudRate_def baud_case_def)

subsection \<open>The distance accessors\<close>

lemma distance_values:
  "distance Rev_Stream lo hi = uint lo + 256 * uint hi"
  "distance Rev_HardwareSerial lo hi = 4 * (uint lo + uint hi)"
  by (simp_all add: distance_def push_bit_eq_mult)

text \<open>
  Claim C9. The claim asks for \<open>low + high*256\<close>. The later revision computes it; the
  earlier revision computes \<open>(low + high) << 2\<close>. With the cached frame \<open>frame0\<close>, whose
  bytes 9, 10 are \<open>01 01\<close> and whose bytes 12, 13 are \<open>02 01\<close>, the earlier revision
  returns 8 and 12 where the claim asks for 257 and 258.
\<close>

theorem distance_earlier_revision:
  "map_option fst
     (movingDistance Rev_HardwareSerial \<lparr>at_entry = 1500, at_start = 1500, at_end = 1500\<rparr> []
       ((LD2412 b frame0)\<lparr>serialLastRead := 1000\<rparr>)) = Some 8
   \<and> map_option fst
     (staticDistance Rev_HardwareSerial \<lparr>at_entry = 1500, at_start = 1500, at_end = 1500\<rparr> []
       ((LD2412 b frame0)\<lparr>serialLastRead := 1000\<rparr>)) = Some 12"
  by (simp add: movingDistance_def staticDistance_def accessor_def readSerial_def LD2412_def
      fresh_def REFRESH_THRESHOLD_def distance_def frame0_def)

subsection \<open>A frame whose bytes arrive during the capture\<close>

text \<open>
  Claim C4. The claim asks that a stream holding the header, 13 payload bytes and the
  footer yields one completed frame. \<open>readSerial\<close> calls \<open>serial.read()\<close> in every
  pass without asking \<open>serial.available()\<close>, and stores \<open>0xFF\<close> when nothing has
  arrived. On a new object, with the first byte of \<open>frame0\<close> in the queue at the call
  and the other twenty arriving two passes later, no frame is completed whatever the
  clock readings are and however many passes follow: the call returns false, or has
  not returned.
\<close>

theorem readSerial_loses_frame_arriving_late:
  "map_option fst
     (readSerial rv clk (([], t1) # ([], t2) # (drop 1 frame0, t3) # map (Pair []) ts)
        (driver0\<lparr>serial_in := take 1 frame0\<rparr>))
   \<in> {None, Some False}"
proof -
  let ?T = "of_nat (at_start clk) :: u32"
  let ?st = "driver0\<lparr>serial_in := take 1 frame0\<rparr>"
  let ?ticks = "([], t1) # ([], t2) # (drop 1 frame0, t3) # map (Pair []) ts"
  let ?d = "driver0\<lparr>buffer := (buffer driver0)[0 := 0xF4, 1 := 0xFF, 0 := 0xF3],
                    serial_in := drop 2 frame0\<rparr>"
  have d: "0xF4 \<notin> set (serial_in ?d)" "buffer ?d \<noteq> []"
    by (simp_all add: frame0_def driver0_def LD2412_def)
  have "(\<exists>x. capture rv ?T ?ticks 0 ?st = Some (False, x))
      \<or> capture rv ?T ?ticks 0 ?st = capture rv ?T (map (Pair []) ts) 0 ?d"
    by (cases rv)
      (simp_all add: pass_def checks_def header_bad_def footer_bad_def read_byte_def Let_def
        frame0_def driver0_def LD2412_def)
  then have "map_option fst (capture rv ?T ?ticks 0 ?st) \<in> {None, Some False}"
    using capture_without_header [OF d, of rv ?T ts] by auto
  moreover have "\<not> fresh rv ?st (at_entry clk)" and "serial_in ?st \<noteq> []"
    by (simp_all add: fresh_def driver0_def LD2412_def frame0_def)
  ultimately show ?thesis
    unfolding readSerial_def by (auto split: option.splits)
qed

subsection \<open>The minimum that the sensitivity getters return\<close>

text \<open>
  Claim C10. When configuration mode is entered and \<open>getAck\<close> hands back the buffer
  with status byte 0, \<open>getMotionSensitivity\<close> and \<open>getStaticSensitivity\<close> return
  the minimum of 100 and the fourteen bytes at offsets 10 to 23 of that buffer; the
  result never exceeds 100.
\<close>

theorem sensitivity_getters_capped_minimum:
  assumes "length (buffer st) = BUFFER_SIZE"
    and "(getter, word) \<in> {(getMotionSensitivity, 0x13), (getStaticSensitivity, 0x14)}"
    and "fst (enableConfig pf w_enable st)"
    and "acked (getAck pf word 28 w_body
           (sendCommand pf [word, 0x00] (snd (enableConfig pf w_enable st))))"
  shows "fst (getter pf w_enable w_body w_disable st)
      = min 100 (Min (uint ` set (take 14 (drop 10 (buffer (snd (getAck pf word 28 w_body
           (sendCommand pf [word, 0x00] (snd (enableConfig pf w_enable st))))))))))
    \<and> fst (getter pf w_enable w_body w_disable st) \<le> 100"
proof -
  define r where "r = getAck pf word 28 w_body
           (sendCommand pf [word, 0x00] (snd (enableConfig pf w_enable st)))"
  obtain st1 where e: "enableConfig pf w_enable st = (True, st1)"
    using assms(3) by (cases "enableConfig pf w_enable st") auto
  have g: "getter pf = sensitivity_query pf [word, 0x00]"
    using assms(2) by (auto simp: getMotionSensitivity_def getStaticSensitivity_def)
  have "length (buffer (snd r)) = BUFFER_SIZE"
    unfolding r_def using assms(1)
    by (simp add: getAck_buffer_length enableConfig_buffer_length)
  then have m: "lowest (buffer (snd r)) = min 100 (Min (uint ` set (take 14 (drop 10 (buffer (snd r))))))"
    by (intro lowest_min) (simp add: BUFFER_SIZE_def)
  have "fst (getter pf w_enable w_body w_disable st) = lowest (buffer (snd r))"
    using assms(4) e unfolding g sensitivity_query_def r_def by (simp add: Let_def)
  then show ?thesis
    using m unfolding r_def by simp
qed

text \<open>Fourteen gates at 120 are reported as 100.\<close>

theorem sensitivity_getters_capped_minimum_witness:
  "fst (getMotionSensitivity platform0 [[]]
     [[0xFD, 0xFC, 0xFB, 0xFA, 0x10, 0x00, 0x13, 0x01, 0x00, 0x00,
       0x78, 0x78, 0x78, 0x78, 0x78, 0x78, 0x78, 0x78, 0x78, 0x78, 0x78, 0x78, 0x78, 0x78,
       0x04, 0x03, 0x02]]
     [[]] driver0) = 100"
proof -
  let ?reply = "[0xFD, 0xFC, 0xFB, 0xFA, 0x10, 0x00, 0x13, 0x01, 0x00, 0x00,
       0x78, 0x78, 0x78, 0x78, 0x78, 0x78, 0x78, 0x78, 0x78, 0x78, 0x78, 0x78, 0x78, 0x78,
       0x04, 0x03, 0x02] :: u8 list"
  define st0 where "st0 = sendCommand platform0 [0xFF, 0x00, 0x01, 0x00] driver0"
  define st1 where "st1 = snd (getAck platform0 0xFF 18 [[]] st0)"
  define st2 where "st2 = sendCommand platform0 [0x13, 0x00] st1"
  have s0: "buffer st0 = replicate 32 0" "serial_in st0 = []"
    by (simp_all add: st0_def driver0_def LD2412_def)
  have l: "length (buffer driver0) = BUFFER_SIZE" and l0: "length (buffer st0) = BUFFER_SIZE"
    by (simp_all add: s0 driver0_def LD2412_def BUFFER_SIZE_def)
  have g0: "fst (getAck platform0 0xFF 18 [[]] st0) = Buffer"
    and s1: "buffer st1 = replicate 32 0" "serial_in st1 = []"
    unfolding st1_def by (simp_all add: getAck_closed [OF l0] s0 BUFFER_SIZE_def)
  have s2: "buffer st2 = replicate 32 0" "serial_in st2 = []"
    by (simp_all add: st2_def s1)
  have l2: "length (buffer st2) = BUFFER_SIZE"
    by (simp add: s2 BUFFER_SIZE_def)
  have en: "enableConfig platform0 [[]] driver0 = (True, st1)"
    using g0 s1 by (simp add: enableConfig_def acked_def st0_def [symmetric] st1_def [symmetric])
  have r: "getAck platform0 0x13 28 [?reply] st2 =
      (Buffer, st2\<lparr>buffer := ?reply @ replicate 5 0, serial_in := []\<rparr>)"
    by (simp add: getAck_closed [OF l2] s2 BUFFER_SIZE_def)
  have a: "acked (getAck platform0 0x13 28 [?reply]
      (sendCommand platform0 [0x13, 0x00] (snd (enableConfig platform0 [[]] driver0))))"
    unfolding en snd_conv st2_def [symmetric] r by (simp add: acked_def)
  have e: "fst (enableConfig platform0 [[]] driver0)"
    by (simp add: en)
  have "(getMotionSensitivity, 0x13 :: u8) \<in> {(getMotionSensitivity, 0x13), (getStaticSensitivity, 0x14)}"
    by simp
  from sensitivity_getters_capped_minimum [OF l this e a, of "[[]]"]
  show ?thesis
    unfolding en snd_conv st2_def [symmetric] r by simp
qed

end
